theory Spec2Isabelle
  imports Main "HOL-Library.Word"
begin

unbundle bit_operations_syntax

section \<open>SoftWire: a bit-banged I2C master\<close>

text \<open>
  A shallow embedding of \<^verbatim>\<open>src/src/SoftWire.cpp\<close>. Every member function of the C++
  class becomes a HOL function over two explicit states: the object (\<open>softwire\<close>, the
  fields of the class) and the bus (\<open>bus\<close>, everything outside the program: the two
  lines, the slave and the clock behind the deadline timer).
\<close>

subsection \<open>Machine integers\<close>

type_synonym u8 = "8 word"
type_synonym u16 = "16 word"
type_synonym u32 = "32 word"

subsection \<open>The CRC-8 utility\<close>

text \<open>
  \<^verbatim>\<open>crc8_update\<close> (lines 74-86). The body of the \<^verbatim>\<open>for\<close> loop is \<open>crc8_shift\<close>: with the
  top bit set, the value is widened to 16 bits, shifted, XORed with the polynomial and
  narrowed back on assignment to the \<^verbatim>\<open>uint8_t\<close>; otherwise it is shifted in place.
\<close>

definition polynomial :: u16 where
  "polynomial = 0x107"

definition crc8_shift :: "u8 \<Rightarrow> u8" where
  "crc8_shift crc =
     (if crc AND 0x80 \<noteq> 0
      then ucast (push_bit 1 (ucast crc :: u16) XOR polynomial)
      else push_bit 1 crc)"

text \<open>The loop \<^verbatim>\<open>for (uint8_t i = 8; i; --i)\<close>, counting \<open>i\<close> down to zero.\<close>

fun crc8_loop :: "nat \<Rightarrow> u8 \<Rightarrow> u8" where
  "crc8_loop 0 crc = crc"
| "crc8_loop (Suc i) crc = crc8_loop i (crc8_shift crc)"

definition crc8_update :: "u8 \<Rightarrow> u8 \<Rightarrow> u8" where
  "crc8_update crc data = crc8_loop 8 (crc XOR data)"

text \<open>
  The step as the specification words it, on natural numbers: shift left by one and, when
  a bit leaves the low eight, XOR with the nine-bit polynomial \<open>0x107\<close>.
\<close>

definition spec_crc8_shift :: "nat \<Rightarrow> nat" where
  "spec_crc8_shift x = (if 256 \<le> 2 * x then (2 * x) XOR 0x107 else 2 * x)"

definition spec_crc8_update :: "nat \<Rightarrow> nat \<Rightarrow> nat" where
  "spec_crc8_update crc data = (spec_crc8_shift ^^ 8) (crc XOR data)"

subsection \<open>The object\<close>

text \<open>
  The data members of the class, in the order of the constructor's initialiser list
  (lines 89-108). Both buffers are memory owned by the caller: the list is the memory
  the pointer refers to, and \<open>rxBufferSize\<close>, \<open>txBufferSize\<close> are the sizes the
  caller declared for it. \<open>write_error\<close> is the flag of the stream base class that
  \<^verbatim>\<open>setWriteError\<close> sets.
\<close>

text \<open>
  Modelled from the spec: the declarations of the members are in \<^verbatim>\<open>SoftWire.h\<close>, which
  is not among the sources. The cursors and sizes are taken as \<^verbatim>\<open>uint8_t\<close>, the type of
  the loop counters that run over them and of the value \<^verbatim>\<open>requestFrom\<close> returns; the
  half-bit delay is a \<^verbatim>\<open>uint8_t\<close> (its ceiling is 255).
\<close>

record softwire =
  sda :: u8
  scl :: u8
  inputMode :: u8
  delay_us :: u8
  timeout_ms :: u16
  rxBuffer :: "u8 list"
  rxBufferSize :: u8
  rxBufferIndex :: u8
  rxBufferBytesRead :: u8
  txAddress :: u8
  txBuffer :: "u8 list"
  txBufferSize :: u8
  txBufferIndex :: u8
  write_error :: int

text \<open>
  What C++ leaves undefined becomes a value: an access outside the memory of a buffer,
  and the division by zero of \<^verbatim>\<open>setClock(0)\<close>.
\<close>

datatype fault = OutOfBounds | DivisionByZero

text \<open>
  The memory behind each buffer pointer is at least as large as the size declared for it.
\<close>

definition buffers_ok :: "softwire \<Rightarrow> bool" where
  "buffers_ok s \<longleftrightarrow>
     unat (txBufferSize s) \<le> length (txBuffer s) \<and>
     unat (rxBufferSize s) \<le> length (rxBuffer s)"

subsection \<open>Configuration\<close>

text \<open>
  Modelled from the spec: \<^verbatim>\<open>setDelay_us\<close> is defined in \<^verbatim>\<open>SoftWire.h\<close>, which is not
  among the sources. The spec has it store the half-bit delay "clamped to a minimum of
  1 \<mu>s-equivalent step and a protocol-defined maximum"; the maximum is taken to be 255,
  the largest delay the spec names and the largest a \<^verbatim>\<open>uint8_t\<close> holds.
\<close>

definition setDelay_us :: "u8 \<Rightarrow> softwire \<Rightarrow> softwire" where
  "setDelay_us d s = s\<lparr>delay_us := (if d < 1 then 1 else d)\<rparr>"

text \<open>
  \<^verbatim>\<open>setClock\<close> (lines 391-400). The arithmetic is on \<^verbatim>\<open>uint32_t\<close>; the argument of
  \<^verbatim>\<open>setDelay_us\<close> is narrowed to \<^verbatim>\<open>uint8_t\<close>.
\<close>

definition setClock :: "u32 \<Rightarrow> softwire \<Rightarrow> fault + softwire" where
  "setClock frequency s =
     (if frequency = 0 then Inl DivisionByZero
      else
        let period_us = (1000000 :: u32) div frequency;
            period_us = (if period_us < 2 then 2
                         else if period_us > 2 * 255 then 2 * 255
                         else period_us)
        in Inr (setDelay_us (ucast (period_us div 2)) s))"

subsection \<open>The transmit buffer\<close>

text \<open>
  Modelled from the spec: \<^verbatim>\<open>setWriteError\<close> belongs to the stream base class, which is
  not among the sources; it "records a write-error condition", a flag that stays set.
\<close>

definition setWriteError :: "softwire \<Rightarrow> softwire" where
  "setWriteError s = s\<lparr>write_error := 1\<rparr>"

text \<open>
  \<^verbatim>\<open>write(uint8_t)\<close> (lines 341-350), named \<open>write_byte\<close> here (C++ overloads the
  name, and Isar reserves it): the result is the count returned and the object.
\<close>

definition write_byte :: "u8 \<Rightarrow> softwire \<Rightarrow> fault + (nat \<times> softwire)" where
  "write_byte data s =
     (if txBufferIndex s \<ge> txBufferSize s then Inr (0, setWriteError s)
      else if unat (txBufferIndex s) < length (txBuffer s)
      then Inr (1, s\<lparr>txBuffer := (txBuffer s)[unat (txBufferIndex s) := data],
                      txBufferIndex := txBufferIndex s + 1\<rparr>)
      else Inl OutOfBounds)"

text \<open>
  \<^verbatim>\<open>write(const uint8_t *, size_t)\<close> (lines 354-361): the argument is the list of the
  \<^verbatim>\<open>quantity\<close> bytes behind the pointer, \<open>r\<close> the running sum.
\<close>

fun write_loop :: "u8 list \<Rightarrow> nat \<Rightarrow> softwire \<Rightarrow> fault + (nat \<times> softwire)" where
  "write_loop [] r s = Inr (r, s)"
| "write_loop (d # ds) r s =
     (case write_byte d s of
        Inl e \<Rightarrow> Inl e
      | Inr (n, s') \<Rightarrow> write_loop ds (r + n) s')"

definition write_bytes :: "u8 list \<Rightarrow> softwire \<Rightarrow> fault + (nat \<times> softwire)" where
  "write_bytes data s = write_loop data 0 s"

text \<open>\<^verbatim>\<open>beginTransmission\<close> (lines 403-407).\<close>

definition beginTransmission :: "u8 \<Rightarrow> softwire \<Rightarrow> softwire" where
  "beginTransmission address s = s\<lparr>txAddress := address, txBufferIndex := 0\<rparr>"

subsection \<open>The receive buffer\<close>

text \<open>\<^verbatim>\<open>available\<close> (lines 335-338): the subtraction is on \<^verbatim>\<open>int\<close>.\<close>

definition available :: "softwire \<Rightarrow> int" where
  "available s = uint (rxBufferBytesRead s) - uint (rxBufferIndex s)"

text \<open>
  \<^verbatim>\<open>read\<close> (lines 364-370): the cursor is incremented first and the byte at the new
  cursor is returned.
\<close>

definition read :: "softwire \<Rightarrow> fault + (int \<times> softwire)" where
  "read s =
     (if rxBufferIndex s < rxBufferBytesRead s
      then let i = rxBufferIndex s + 1
           in if unat i < length (rxBuffer s)
              then Inr (uint (rxBuffer s ! unat i), s\<lparr>rxBufferIndex := i\<rparr>)
              else Inl OutOfBounds
      else Inr (- 1, s))"

text \<open>\<^verbatim>\<open>peek\<close> (lines 373-379).\<close>

definition peek :: "softwire \<Rightarrow> fault + int" where
  "peek s =
     (if rxBufferIndex s < rxBufferBytesRead s
      then if unat (rxBufferIndex s) < length (rxBuffer s)
           then Inr (uint (rxBuffer s ! unat (rxBufferIndex s)))
           else Inl OutOfBounds
      else Inr (- 1))"

subsection \<open>The bus\<close>

text \<open>
  Line control, the microsecond delay and the deadline timer are outside the program.
  The bus records what the master does to the lines, newest event first, and scripts what
  the master observes: the levels \<^verbatim>\<open>digitalRead\<close> returns for the clock and the data
  line (\<open>True\<close> is \<^verbatim>\<open>HIGH\<close>), and the answers of \<^verbatim>\<open>isExpired\<close>, each consumed in the
  order of the calls. When a script is used up the line reads high, as a released line
  with a pull-up does, and the deadline has not expired: the empty bus has no slave.
  Every slave and every timing is some choice of scripts; a clock line held low is held
  for as many polls as its script says.
\<close>

datatype event = SdaLow | SdaHigh | SclLow | SclHigh | Delay nat

record bus =
  wire_log :: "event list"
  scl_levels :: "bool list"
  sda_levels :: "bool list"
  expiries :: "bool list"

text \<open>
  The default line primitives (lines 15-69). Driving a line low is \<^verbatim>\<open>digitalWrite(LOW)\<close>
  with \<^verbatim>\<open>pinMode(OUTPUT)\<close>; releasing it is \<^verbatim>\<open>pinMode\<close> to the input mode.
\<close>

definition emit :: "event \<Rightarrow> bus \<Rightarrow> bus" where
  "emit e w = w\<lparr>wire_log := e # wire_log w\<rparr>"

definition setSdaLow :: "bus \<Rightarrow> bus" where
  "setSdaLow = emit SdaLow"

definition setSdaHigh :: "bus \<Rightarrow> bus" where
  "setSdaHigh = emit SdaHigh"

definition setSclLow :: "bus \<Rightarrow> bus" where
  "setSclLow = emit SclLow"

definition setSclHigh :: "bus \<Rightarrow> bus" where
  "setSclHigh = emit SclHigh"

definition readSda :: "bus \<Rightarrow> bool \<times> bus" where
  "readSda w =
     (case sda_levels w of [] \<Rightarrow> (True, w) | b # bs \<Rightarrow> (b, w\<lparr>sda_levels := bs\<rparr>))"

definition readScl :: "bus \<Rightarrow> bool \<times> bus" where
  "readScl w =
     (case scl_levels w of [] \<Rightarrow> (True, w) | b # bs \<Rightarrow> (b, w\<lparr>scl_levels := bs\<rparr>))"

text \<open>\<^verbatim>\<open>delayMicroseconds(_delay_us)\<close>.\<close>

definition delayMicroseconds :: "softwire \<Rightarrow> bus \<Rightarrow> bus" where
  "delayMicroseconds s = emit (Delay (unat (delay_us s)))"

text \<open>\<^verbatim>\<open>timeout.isExpired()\<close> of the deadline timer.\<close>

definition isExpired :: "bus \<Rightarrow> bool \<times> bus" where
  "isExpired w =
     (case expiries w of [] \<Rightarrow> (False, w) | b # bs \<Rightarrow> (b, w\<lparr>expiries := bs\<rparr>))"

text \<open>
  What the master is doing to each line, read off the log: a line is released when the
  last event on it released it, and before the master has touched it.
\<close>

fun sda_released :: "event list \<Rightarrow> bool" where
  "sda_released [] = True"
| "sda_released (SdaHigh # es) = True"
| "sda_released (SdaLow # es) = False"
| "sda_released (e # es) = sda_released es"

fun scl_released :: "event list \<Rightarrow> bool" where
  "scl_released [] = True"
| "scl_released (SclHigh # es) = True"
| "scl_released (SclLow # es) = False"
| "scl_released (e # es) = scl_released es"

definition bus_idle :: "bus \<Rightarrow> bool" where
  "bus_idle w \<longleftrightarrow> sda_released (wire_log w) \<and> scl_released (wire_log w)"

subsection \<open>The bit engine\<close>

text \<open>
  Modelled from the spec: the enumerations \<^verbatim>\<open>result_t\<close> and \<^verbatim>\<open>mode_t\<close> are declared in
  \<^verbatim>\<open>SoftWire.h\<close>, which is not among the sources. The protocol outcome is one of
  acknowledged, not-acknowledged and timed-out; \<^verbatim>\<open>requestFrom\<close> tests an outcome against
  zero where the spec says "on success", so acknowledged is 0. The direction flag is the
  read/write bit of the address byte, 1 for reading.
\<close>

datatype result_t = ack | nack | timedOut

fun result_code :: "result_t \<Rightarrow> nat" where
  "result_code ack = 0"
| "result_code nack = 1"
| "result_code timedOut = 2"

datatype mode_t = writeMode | readMode

fun mode_bit :: "mode_t \<Rightarrow> u8" where
  "mode_bit writeMode = 0"
| "mode_bit readMode = 1"

text \<open>
  \<^verbatim>\<open>stop\<close> (lines 126-148), the clock-stretch wait and the clock release, which call one
  another. \<open>awaitSclHigh\<close> is the loop
  \<^verbatim>\<open>while (_readScl(this) == LOW) if (timeout.isExpired()) { stop(); return timedOut; }\<close>
  of \<^verbatim>\<open>llRead\<close> (lines 288-292 and 320-324); its result is \<open>False\<close> when it returned
  from inside. The recursion ends because every failed wait has consumed a low reading of
  the clock.
\<close>

text \<open>
  Modelled from the spec: \<^verbatim>\<open>setSclHighAndStretch\<close> is defined in \<^verbatim>\<open>SoftWire.h\<close>, which
  is not among the sources. By the spec it releases the clock and waits for it to rise,
  "until either the clock line is observed high or the deadline expires", and "any
  timeout path invokes a stop sequence as part of error recovery before returning
  control": the release followed by the same wait loop. Its callers test the result as a
  truth value, false on timeout.
\<close>

function stop :: "softwire \<Rightarrow> bus \<Rightarrow> result_t \<times> bus"
  and setSclHighAndStretch :: "softwire \<Rightarrow> bus \<Rightarrow> bool \<times> bus"
  and awaitSclHigh :: "softwire \<Rightarrow> bus \<Rightarrow> bool \<times> bus"
where
  "stop s w =
     (let w1 = delayMicroseconds s (setSclLow w);
          w2 = delayMicroseconds s (setSdaLow w1);
          (ok, w3) = setSclHighAndStretch s w2
      in if \<not> ok then (timedOut, w3)
         else (ack, delayMicroseconds s (setSdaHigh (delayMicroseconds s w3))))"
| "setSclHighAndStretch s w = awaitSclHigh s (setSclHigh w)"
| "awaitSclHigh s w =
     (let (level, w1) = readScl w
      in if level then (True, w1)
         else let (expired, w2) = isExpired w1
              in if expired then (False, snd (stop s w2))
                 else awaitSclHigh s w2)"
  by pat_completeness auto

termination
proof (relation "measure (\<lambda>x. case x of
            Inl (s, w) \<Rightarrow> 3 * length (scl_levels w) + 2
          | Inr (Inl (s, w)) \<Rightarrow> 3 * length (scl_levels w) + 1
          | Inr (Inr (s, w)) \<Rightarrow> 3 * length (scl_levels w))")
qed (auto simp: setSclLow_def setSdaLow_def setSclHigh_def delayMicroseconds_def emit_def
      readScl_def isExpired_def split: list.splits)

declare stop.simps [simp del]
declare setSclHighAndStretch.simps [simp del]
declare awaitSclHigh.simps [simp del]

text \<open>
  \<^verbatim>\<open>llWrite\<close> (lines 213-264). \<open>llWrite_loop\<close> is the loop over the eight bits, most
  significant first, \<open>i\<close> counting down; its result is \<open>False\<close> when it returned
  \<^verbatim>\<open>timedOut\<close> from inside.
\<close>

fun llWrite_loop :: "nat \<Rightarrow> u8 \<Rightarrow> softwire \<Rightarrow> bus \<Rightarrow> bool \<times> bus" where
  "llWrite_loop 0 data s w = (True, w)"
| "llWrite_loop (Suc i) data s w =
     (let w1 = setSclLow w;
          w2 = (if data AND 0x80 \<noteq> 0 then setSdaHigh w1 else setSdaLow w1);
          w3 = delayMicroseconds s w2;
          (ok, w4) = setSclHighAndStretch s w3
      in if \<not> ok then (False, w4)
         else let w5 = delayMicroseconds s w4;
                  data' = push_bit 1 data;
                  (expired, w6) = isExpired w5
              in if expired then (False, snd (stop s w6))
                 else llWrite_loop i data' s w6)"

definition llWrite :: "u8 \<Rightarrow> softwire \<Rightarrow> bus \<Rightarrow> result_t \<times> bus" where
  "llWrite data s w =
     (let (completed, w1) = llWrite_loop 8 data s w
      in if \<not> completed then (timedOut, w1)
         else let w2 = setSclLow w1;
                  w3 = setSdaHigh w2;
                  w4 = delayMicroseconds s w3;
                  (ok, w5) = setSclHighAndStretch s w4
              in if \<not> ok then (timedOut, w5)
                 else let (level, w6) = readSda w5;
                          res = (if \<not> level then ack else nack);
                          w7 = delayMicroseconds s w6;
                          w8 = setSclLow w7
                      in (res, w8))"

text \<open>
  \<^verbatim>\<open>llRead\<close> (lines 267-332). The byte is built in the caller's variable \<^verbatim>\<open>data\<close>, passed
  by reference: the model returns what it holds when the function returns, also on a
  timeout.
\<close>

fun llRead_loop :: "nat \<Rightarrow> u8 \<Rightarrow> softwire \<Rightarrow> bus \<Rightarrow> bool \<times> u8 \<times> bus" where
  "llRead_loop 0 data s w = (True, data, w)"
| "llRead_loop (Suc i) data s w =
     (let data1 = push_bit 1 data;
          w1 = setSclLow w;
          w2 = setSdaHigh w1;
          w3 = delayMicroseconds s w2;
          (ok, w4) = setSclHighAndStretch s w3
      in if \<not> ok then (False, data1, w4)
         else let w5 = delayMicroseconds s w4;
                  (high, w6) = awaitSclHigh s w5
              in if \<not> high then (False, data1, w6)
                 else let (level, w7) = readSda w6;
                          data2 = (if level then data1 OR 1 else data1)
                      in llRead_loop i data2 s w7)"

definition llRead :: "bool \<Rightarrow> softwire \<Rightarrow> bus \<Rightarrow> result_t \<times> u8 \<times> bus" where
  "llRead sendAck s w =
     (let (completed, data, w1) = llRead_loop 8 0 s w
      in if \<not> completed then (timedOut, data, w1)
         else let w2 = setSclLow w1;
                  w3 = (if sendAck then setSdaLow w2 else setSdaHigh w2);
                  w4 = delayMicroseconds s w3;
                  (ok, w5) = setSclHighAndStretch s w4
              in if \<not> ok then (timedOut, data, w5)
                 else let w6 = delayMicroseconds s w5;
                          (high, w7) = awaitSclHigh s w6
                      in if \<not> high then (timedOut, data, w7)
                         else let w8 = delayMicroseconds s w7;
                                  w9 = setSclLow w8
                              in (ack, data, w9))"

text \<open>\<^verbatim>\<open>llStart\<close> (lines 150-161).\<close>

definition llStart :: "u8 \<Rightarrow> softwire \<Rightarrow> bus \<Rightarrow> result_t \<times> bus" where
  "llStart rawAddr s w =
     (let w1 = delayMicroseconds s (setSdaLow w);
          w2 = delayMicroseconds s (setSclLow w1)
      in llWrite rawAddr s w2)"

text \<open>\<^verbatim>\<open>llRepeatedStart\<close> (lines 164-186).\<close>

definition llRepeatedStart :: "u8 \<Rightarrow> softwire \<Rightarrow> bus \<Rightarrow> result_t \<times> bus" where
  "llRepeatedStart rawAddr s w =
     (let w1 = delayMicroseconds s (setSclLow w);
          w2 = delayMicroseconds s (setSdaHigh w1);
          (ok, w3) = setSclHighAndStretch s w2
      in if \<not> ok then (timedOut, w3)
         else let w4 = delayMicroseconds s w3;
                  w5 = delayMicroseconds s (setSdaLow w4)
              in llWrite rawAddr s w5)"

text \<open>
  \<^verbatim>\<open>llStartWait\<close> (lines 189-210). Every arm of the \<^verbatim>\<open>switch\<close> leaves the function: the
  arm for \<^verbatim>\<open>nack\<close> has no \<^verbatim>\<open>break\<close> and runs on into the default arm. So the body of the
  \<^verbatim>\<open>while\<close> loop runs at most once, and the loop is a conditional.
\<close>

definition llStartWait :: "u8 \<Rightarrow> softwire \<Rightarrow> bus \<Rightarrow> result_t \<times> bus" where
  "llStartWait rawAddr s w =
     (let (expired, w1) = isExpired w
      in if expired then (timedOut, w1)
         else let w2 = delayMicroseconds s (setSdaLow w1);
                  (r, w3) = llWrite rawAddr s w2
              in case r of
                   ack \<Rightarrow> (ack, w3)
                 | nack \<Rightarrow> (let w4 = snd (stop s w3); w5 = snd (stop s w4) in (timedOut, w5))
                 | timedOut \<Rightarrow> (let w4 = snd (stop s w3) in (timedOut, w4)))"

text \<open>
  Modelled from the spec: \<^verbatim>\<open>start\<close> is defined in \<^verbatim>\<open>SoftWire.h\<close>, which is not among the
  sources. By the spec it drives data low, then clock low, and "immediately shifts out the
  7-bit address plus read/write bit via the byte shift-out primitive": \<^verbatim>\<open>llStart\<close> on the
  address shifted left by one with the direction bit added.
\<close>

definition start :: "u8 \<Rightarrow> mode_t \<Rightarrow> softwire \<Rightarrow> bus \<Rightarrow> result_t \<times> bus" where
  "start address rwMode s w = llStart (push_bit 1 address + mode_bit rwMode) s w"

subsection \<open>The byte transaction layer\<close>

text \<open>
  \<^verbatim>\<open>endTransmission\<close> (lines 410-430). \<open>endTransmission_loop\<close> is the loop over the
  buffered bytes with its \<^verbatim>\<open>uint8_t\<close> counter; its result is the status it returned from
  inside, if it did.
\<close>

function endTransmission_loop :: "u8 \<Rightarrow> softwire \<Rightarrow> bus \<Rightarrow> fault + (u8 option \<times> bus)" where
  "endTransmission_loop i s w =
     (if i < txBufferIndex s
      then if unat i < length (txBuffer s)
           then let (r, w1) = llWrite (txBuffer s ! unat i) s w
                in if r = nack then Inr (Some 3, w1)
                   else if r = timedOut then Inr (Some 4, w1)
                   else endTransmission_loop (i + 1) s w1
           else Inl OutOfBounds
      else Inr (None, w))"
  by pat_completeness auto
termination
proof (relation "measure (\<lambda>(i, s, w). unat (txBufferIndex s) - unat i)")
  show "wf (measure (\<lambda>(i, s, w). unat (txBufferIndex s) - unat i))"
    by simp
next
  fix i :: u8 and s :: softwire and w :: bus
  assume less: "i < txBufferIndex s"
  then have "unat i < unat (txBufferIndex s)"
    by (simp add: word_less_nat_alt)
  moreover have "unat (txBufferIndex s) < 256"
    using unsigned_less [of "txBufferIndex s"] by simp
  ultimately have "unat i + unat (1 :: u8) < 2 ^ LENGTH(8)"
    by simp
  then have "unat (i + 1) = unat i + unat (1 :: u8)"
    by (simp only: unat_add_lem)
  with \<open>unat i < unat (txBufferIndex s)\<close>
  show "((i + 1, s, w1), i, s, w) \<in> measure (\<lambda>(i, s, w). unat (txBufferIndex s) - unat i)"
    for w1 :: bus
    by simp
qed

declare endTransmission_loop.simps [simp del]

definition endTransmission :: "u8 \<Rightarrow> softwire \<Rightarrow> bus \<Rightarrow> fault + (u8 \<times> bus)" where
  "endTransmission sendStop s w =
     (let (r, w1) = start (txAddress s) writeMode s w
      in if r = nack then Inr (2, w1)
         else if r = timedOut then Inr (4, w1)
         else case endTransmission_loop 0 s w1 of
                Inl e \<Rightarrow> Inl e
              | Inr (Some status, w2) \<Rightarrow> Inr (status, w2)
              | Inr (None, w2) \<Rightarrow>
                  Inr (0, if sendStop \<noteq> 0 then snd (stop s w2) else w2))"

text \<open>
  \<^verbatim>\<open>requestFrom\<close> (lines 433-447). \<^verbatim>\<open>llRead\<close> is handed a reference to \<^verbatim>\<open>_rxBuffer[i]\<close> and
  writes the byte through it, so the element must exist before the call. The flag
  \<^verbatim>\<open>i != quantity - 1\<close> is computed on \<^verbatim>\<open>int\<close>. The value returned is \<^verbatim>\<open>_rxBufferIndex\<close>.
\<close>

function requestFrom_loop :: "u8 \<Rightarrow> u8 \<Rightarrow> softwire \<Rightarrow> bus \<Rightarrow> fault + (softwire \<times> bus)" where
  "requestFrom_loop quantity i s w =
     (if i < quantity
      then if unat i < length (rxBuffer s)
           then let (r, data, w1) = llRead (uint i \<noteq> uint quantity - 1) s w;
                    s1 = s\<lparr>rxBuffer := (rxBuffer s)[unat i := data]\<rparr>
                in if result_code r \<noteq> 0 then Inr (s1, w1)
                   else requestFrom_loop quantity (i + 1)
                          (s1\<lparr>rxBufferBytesRead := rxBufferBytesRead s1 + 1\<rparr>) w1
           else Inl OutOfBounds
      else Inr (s, w))"
  by pat_completeness auto
termination
proof (relation "measure (\<lambda>(quantity, i, s, w). unat quantity - unat i)")
  show "wf (measure (\<lambda>(quantity, i, s, w). unat quantity - unat i))"
    by simp
next
  fix quantity i :: u8 and s s1 :: softwire and w w1 :: bus
  assume less: "i < quantity"
  then have "unat i < unat quantity"
    by (simp add: word_less_nat_alt)
  moreover have "unat quantity < 256"
    using unsigned_less [of quantity] by simp
  ultimately have "unat i + unat (1 :: u8) < 2 ^ LENGTH(8)"
    by simp
  then have "unat (i + 1) = unat i + unat (1 :: u8)"
    by (simp only: unat_add_lem)
  with \<open>unat i < unat quantity\<close>
  show "((quantity, i + 1, s1, w1), quantity, i, s, w)
          \<in> measure (\<lambda>(quantity, i, s, w). unat quantity - unat i)"
    by simp
qed

declare requestFrom_loop.simps [simp del]

definition requestFrom ::
  "u8 \<Rightarrow> u8 \<Rightarrow> u8 \<Rightarrow> softwire \<Rightarrow> bus \<Rightarrow> fault + (u8 \<times> softwire \<times> bus)" where
  "requestFrom address quantity sendStop s w =
     (let s1 = s\<lparr>rxBufferBytesRead := 0\<rparr>;
          (r, w1) = start address readMode s1 w
      in case (if result_code r = 0 then requestFrom_loop quantity 0 s1 w1
               else Inr (s1, w1)) of
           Inl e \<Rightarrow> Inl e
         | Inr (s2, w2) \<Rightarrow>
             Inr (rxBufferIndex s2, s2,
                  if sendStop \<noteq> 0 then snd (stop s2 w2) else w2))"

subsection \<open>Observations on a run\<close>

text \<open>
  The events of a completed \<^verbatim>\<open>stop\<close>, newest first: clock low, data low, clock released,
  data released, each followed by the half-bit delay. A stop has been issued when these
  are the last things the master did to the bus.
\<close>

definition stop_sequence :: "softwire \<Rightarrow> event list" where
  "stop_sequence s =
     [Delay (unat (delay_us s)), SdaHigh, Delay (unat (delay_us s)), SclHigh,
      Delay (unat (delay_us s)), SdaLow, Delay (unat (delay_us s)), SclLow]"

definition stop_issued :: "softwire \<Rightarrow> bus \<Rightarrow> bool" where
  "stop_issued s w \<longleftrightarrow> take 8 (wire_log w) = stop_sequence s"

text \<open>
  The outcomes of shifting out the given bytes one after the other, up to and including
  the first that is not acknowledged.
\<close>

fun tx_outcomes :: "u8 list \<Rightarrow> softwire \<Rightarrow> bus \<Rightarrow> result_t list" where
  "tx_outcomes [] s w = []"
| "tx_outcomes (b # bs) s w =
     (let (r, w1) = llWrite b s w
      in if r = ack then r # tx_outcomes bs s w1 else [r])"

text \<open>
  The cursor invariant of the transaction state: the write cursor is within the declared
  size of the transmit buffer, and the read cursor is within the count of bytes received.
\<close>

definition cursors_ok :: "softwire \<Rightarrow> bool" where
  "cursors_ok s \<longleftrightarrow>
     txBufferIndex s \<le> txBufferSize s \<and> rxBufferIndex s \<le> rxBufferBytesRead s"

subsection \<open>Concrete scenarios\<close>

text \<open>
  A device on pins 2 and 3 with two-byte buffers, the same device with two bytes queued
  for transmission, and some buses: one without a slave; one whose slave acknowledges its
  address and then supplies the bytes \<open>0xA5\<close> and \<open>0x3C\<close>; slaves that acknowledge
  three bytes, or the first byte only; a bus whose clock is found low at the first release
  when the deadline has already expired; one whose clock rises at the first release and
  is then found low again, the deadline expired; and a bus with no stretching whose
  deadline expires at the first poll.
\<close>

definition device :: softwire where
  "device =
     \<lparr>sda = 2, scl = 3, inputMode = 0, delay_us = 5, timeout_ms = 100,
      rxBuffer = [0, 0], rxBufferSize = 2, rxBufferIndex = 0, rxBufferBytesRead = 0,
      txAddress = 8, txBuffer = [0, 0], txBufferSize = 2, txBufferIndex = 0,
      write_error = 0\<rparr>"

definition loaded_device :: softwire where
  "loaded_device = device\<lparr>txBuffer := [0x10, 0x20], txBufferIndex := 2\<rparr>"

definition empty_bus :: bus where
  "empty_bus = \<lparr>wire_log = [], scl_levels = [], sda_levels = [], expiries = []\<rparr>"

definition two_byte_slave :: bus where
  "two_byte_slave =
     \<lparr>wire_log = [], scl_levels = [],
      sda_levels = [False,
                    True, False, True, False, False, True, False, True,
                    False, False, True, True, True, True, False, False],
      expiries = []\<rparr>"

definition acking_slave :: bus where
  "acking_slave =
     \<lparr>wire_log = [], scl_levels = [], sda_levels = [False, False, False], expiries = []\<rparr>"

definition refusing_slave :: bus where
  "refusing_slave =
     \<lparr>wire_log = [], scl_levels = [], sda_levels = [False, True], expiries = []\<rparr>"

definition stretched_bus :: bus where
  "stretched_bus =
     \<lparr>wire_log = [], scl_levels = [False], sda_levels = [], expiries = [True]\<rparr>"

definition dipping_bus :: bus where
  "dipping_bus =
     \<lparr>wire_log = [], scl_levels = [True, False], sda_levels = [], expiries = [True]\<rparr>"

definition late_bus :: bus where
  "late_bus = \<lparr>wire_log = [], scl_levels = [], sda_levels = [], expiries = [True]\<rparr>"

section \<open>Properties\<close>

subsection \<open>CRC-8\<close>

lemma top_bit_iff: "(c AND 0x80 \<noteq> 0) = (128 \<le> unat (c::u8))"
proof -
  have lt: "unat c < 256" using unsigned_less [of c] by simp
  have "(0x80::u8) = 2 ^ 7" by simp
  then have "(c AND 0x80 \<noteq> 0) = bit c 7"
    by (simp only: and_exp_eq_0_iff_not_bit) simp
  also have "\<dots> = bit (unat c) 7"
    by (simp add: bit_unsigned_iff)
  also have "\<dots> = odd (unat c div 128)"
    by (simp add: bit_iff_odd)
  also have "\<dots> = (128 \<le> unat c)"
  proof (cases "128 \<le> unat c")
    case True
    with lt have "unat c div 128 = 1" by simp
    with True show ?thesis by simp
  next
    case False
    then have "unat c div 128 = 0" by simp
    with False show ?thesis by simp
  qed
  finally show ?thesis .
qed

lemma xor_poly_lt:
  assumes "256 \<le> x" and "x < 512"
  shows "x XOR (263::nat) < 256"
proof -
  have "drop_bit 8 x = 1" using assms by (simp add: drop_bit_eq_div)
  moreover have "drop_bit 8 (263::nat) = 1" by (simp add: drop_bit_eq_div)
  moreover have "drop_bit 8 (x XOR 263) = drop_bit 8 x XOR drop_bit 8 (263::nat)"
    by (rule drop_bit_xor)
  ultimately have "drop_bit 8 (x XOR 263) = 0" by simp
  then show ?thesis
    by (simp add: drop_bit_eq_div div_eq_0_iff)
qed

lemma unat_widen_shift: "unat (push_bit 1 (ucast (c::u8) :: u16)) = 2 * unat c"
proof -
  have lt: "unat c < 256" using unsigned_less [of c] by simp
  from lt have "unat c < 2 ^ 16" by simp
  then have "unat (ucast c :: u16) = unat c"
    by (simp add: unsigned_ucast_eq take_bit_nat_eq_self)
  moreover from lt have "2 * unat c < 2 ^ 16" by simp
  ultimately show ?thesis
    by (simp add: unat_word_ariths)
qed

lemma unat_crc8_shift: "unat (crc8_shift c) = spec_crc8_shift (unat c)"
proof -
  have lt: "unat c < 256" using unsigned_less [of c] by simp
  show ?thesis
  proof (cases "128 \<le> unat c")
    case True
    have "unat (crc8_shift c) = unat (ucast (push_bit 1 (ucast c :: u16) XOR 0x107) :: u8)"
      using True by (simp only: crc8_shift_def top_bit_iff polynomial_def if_True)
    also have "\<dots> = take_bit 8 (unat (push_bit 1 (ucast c :: u16)) XOR 263)"
      by (simp only: unsigned_ucast_eq unsigned_xor_eq) simp
    also have "\<dots> = take_bit 8 ((2 * unat c) XOR 263)"
      by (simp only: unat_widen_shift)
    also have "\<dots> = (2 * unat c) XOR 263"
    proof -
      have "(2 * unat c) XOR 263 < 2 ^ 8"
        using True lt xor_poly_lt [of "2 * unat c"] by simp
      then show ?thesis by (rule take_bit_nat_eq_self)
    qed
    finally show ?thesis using True by (simp add: spec_crc8_shift_def)
  next
    case False
    then show ?thesis
      using lt
      by (simp add: crc8_shift_def top_bit_iff spec_crc8_shift_def unat_word_ariths)
  qed
qed

lemma unat_crc8_loop: "unat (crc8_loop n c) = (spec_crc8_shift ^^ n) (unat c)"
  by (induction n arbitrary: c) (simp_all add: unat_crc8_shift funpow_swap1)

text \<open>
  Claim C9. \<^verbatim>\<open>crc8_update\<close> is one CRC-8 step with polynomial \<open>0x107\<close>: the byte is XORed
  into the accumulator and eight shift-and-conditional-XOR steps follow. Folding it from
  0 over the single byte \<open>0x00\<close> gives \<open>0x00\<close>, and folding a byte sequence equals folding
  its first \<open>k\<close> bytes and then the rest from the intermediate value, for every split
  point \<open>k\<close>.
\<close>

theorem crc8_update_step_and_chunking:
  "unat (crc8_update crc data) = spec_crc8_update (unat crc) (unat data) \<and>
   foldl crc8_update 0 [0x00] = 0 \<and>
   foldl crc8_update crc bytes =
     foldl crc8_update (foldl crc8_update crc (take k bytes)) (drop k bytes)"
proof -
  have step: "unat (crc8_update crc data) = spec_crc8_update (unat crc) (unat data)"
    by (simp add: crc8_update_def spec_crc8_update_def unat_crc8_loop unsigned_xor_eq)
  have zero: "foldl crc8_update 0 [0x00] = 0"
    by (simp add: crc8_update_def crc8_shift_def polynomial_def numeral_eq_Suc)
  have "foldl crc8_update crc (take k bytes @ drop k bytes) =
          foldl crc8_update (foldl crc8_update crc (take k bytes)) (drop k bytes)"
    by (rule foldl_append)
  then have chunk: "foldl crc8_update crc bytes =
          foldl crc8_update (foldl crc8_update crc (take k bytes)) (drop k bytes)"
    by simp
  from step zero chunk show ?thesis by blast
qed

subsection \<open>The clock setting\<close>

lemma clamp_fast:
  assumes "250000 < f"
  shows "max 2 (min 510 (1000000 div f)) div 2 = (1::nat)"
proof -
  from assms have "1000000 div f < 4"
    by (simp add: less_mult_imp_div_less)
  then show ?thesis
    by (simp add: max_def min_def) arith
qed

lemma clamp_slow:
  assumes "0 < f" and "f \<le> 1960"
  shows "max 2 (min 510 (1000000 div f)) div 2 = (255::nat)"
proof -
  from assms have "510 \<le> 1000000 div f"
    by (simp add: less_eq_div_iff_mult_less_eq)
  then show ?thesis
    by (simp add: max_def min_def)
qed

lemma setClock_stores:
  assumes "frequency \<noteq> 0"
  shows "\<exists>d. setClock frequency s = Inr (s\<lparr>delay_us := d\<rparr>) \<and>
           unat d = max 2 (min 510 (1000000 div unat frequency)) div 2"
proof -
  define p where "p = (1000000 :: u32) div frequency"
  define q where "q = (if p < 2 then 2 else if p > 2 * 255 then 2 * 255 else p)"
  have up: "unat p = 1000000 div unat frequency"
    by (simp add: p_def unat_div)
  have uq: "unat q = max 2 (min 510 (unat p))"
    by (auto simp: q_def word_less_nat_alt max_def min_def)
  have qb: "2 \<le> unat q" "unat q \<le> 510"
    by (simp_all add: uq)
  have uh: "unat (q div 2) = unat q div 2"
    by (simp add: unat_div)
  then have hb: "1 \<le> unat (q div 2)" "unat (q div 2) \<le> 255"
    using qb by simp_all
  have uc: "unat (ucast (q div 2) :: u8) = unat (q div 2)"
    using hb by (simp add: unsigned_ucast_eq take_bit_nat_eq_self)
  have nz: "\<not> (ucast (q div 2) :: u8) < 1"
    using hb uc by (simp add: word_less_nat_alt)
  have "setClock frequency s = Inr (setDelay_us (ucast (q div 2)) s)"
    by (simp only: setClock_def Let_def q_def p_def if_not_P [OF assms])
  also have "setDelay_us (ucast (q div 2)) s = s\<lparr>delay_us := ucast (q div 2)\<rparr>"
    using nz by (simp only: setDelay_us_def if_False)
  finally have run: "setClock frequency s = Inr (s\<lparr>delay_us := ucast (q div 2)\<rparr>)" .
  have "unat (ucast (q div 2) :: u8) = max 2 (min 510 (1000000 div unat frequency)) div 2"
    using uc uh uq up by simp
  with run show ?thesis by blast
qed

text \<open>
  Claim C7. For every nonzero frequency \<^verbatim>\<open>setClock\<close> sets the half-bit delay to
  \<open>clamp (1000000 / frequency, 2, 510) / 2\<close> microseconds and changes nothing else. For
  100000 Hz that is 5; for every frequency above 250 kHz it is the floor 1; for every
  frequency up to 1960 Hz it is the ceiling 255.
\<close>

theorem setClock_half_bit_delay:
  assumes "frequency \<noteq> 0"
  shows "\<exists>d. setClock frequency s = Inr (s\<lparr>delay_us := d\<rparr>) \<and>
           unat d = max 2 (min 510 (1000000 div unat frequency)) div 2 \<and>
           (frequency = 100000 \<longrightarrow> d = 5) \<and>
           (250000 < unat frequency \<longrightarrow> d = 1) \<and>
           (unat frequency \<le> 1960 \<longrightarrow> d = 255)"
proof -
  from setClock_stores [OF assms, of s] obtain d where
    run: "setClock frequency s = Inr (s\<lparr>delay_us := d\<rparr>)" and
    val: "unat d = max 2 (min 510 (1000000 div unat frequency)) div 2"
    by blast
  have pos: "0 < unat frequency"
    using assms by (simp add: unat_gt_0)
  have std: "d = 5" if "frequency = 100000"
  proof -
    from val that have "unat d = unat (5 :: u8)" by simp
    then show ?thesis by (simp only: word_unat_eq_iff)
  qed
  have fast: "d = 1" if "250000 < unat frequency"
  proof -
    from val clamp_fast [OF that] have "unat d = unat (1 :: u8)" by simp
    then show ?thesis by (simp only: word_unat_eq_iff)
  qed
  have slow: "d = 255" if "unat frequency \<le> 1960"
  proof -
    from val clamp_slow [OF pos that] have "unat d = unat (255 :: u8)" by simp
    then show ?thesis by (simp only: word_unat_eq_iff)
  qed
  from run val std fast slow show ?thesis by blast
qed

theorem setClock_half_bit_delay_witness:
  "(100000 :: u32) \<noteq> 0 \<and> (400000 :: u32) \<noteq> 0 \<and> (1000 :: u32) \<noteq> 0 \<and>
   setClock 100000 device = Inr (device\<lparr>delay_us := 5\<rparr>) \<and>
   setClock 400000 device = Inr (device\<lparr>delay_us := 1\<rparr>) \<and>
   setClock 1000 device = Inr (device\<lparr>delay_us := 255\<rparr>)"
proof -
  have a: "(100000 :: u32) \<noteq> 0" and b: "(400000 :: u32) \<noteq> 0" and c: "(1000 :: u32) \<noteq> 0"
    by simp_all
  from setClock_half_bit_delay [OF a, of device]
  have "setClock 100000 device = Inr (device\<lparr>delay_us := 5\<rparr>)" by auto
  moreover from setClock_half_bit_delay [OF b, of device]
  have "setClock 400000 device = Inr (device\<lparr>delay_us := 1\<rparr>)" by auto
  moreover from setClock_half_bit_delay [OF c, of device]
  have "setClock 1000 device = Inr (device\<lparr>delay_us := 255\<rparr>)" by auto
  ultimately show ?thesis using a b c by blast
qed

subsection \<open>Writing to the transmit buffer\<close>

lemma unat_succ_cursor:
  fixes i n :: u8
  assumes "i < n"
  shows "unat (i + 1) = Suc (unat i)"
proof -
  have "unat i < unat n"
    using assms by (simp add: word_less_nat_alt)
  moreover have "unat n < 256"
    using unsigned_less [of n] by simp
  ultimately have "unat i + unat (1 :: u8) < 2 ^ LENGTH(8)"
    by simp
  then have "unat (i + 1) = unat i + unat (1 :: u8)"
    by (simp only: unat_add_lem)
  then show ?thesis by simp
qed

lemma write_byte_room:
  assumes "unat (txBufferSize s) \<le> length (txBuffer s)"
    and "txBufferIndex s < txBufferSize s"
  shows "write_byte d s =
           Inr (1, s\<lparr>txBuffer := (txBuffer s)[unat (txBufferIndex s) := d],
                      txBufferIndex := txBufferIndex s + 1\<rparr>)"
  using assms by (simp add: write_byte_def word_less_nat_alt not_le)

lemma write_byte_full:
  assumes "txBufferSize s \<le> txBufferIndex s"
  shows "write_byte d s = Inr (0, s\<lparr>write_error := 1\<rparr>)"
  using assms by (simp add: write_byte_def setWriteError_def)

lemma write_loop_result:
  assumes "unat (txBufferSize s) \<le> length (txBuffer s)"
  shows "\<exists>s'. write_loop ds r s =
            Inr (r + min (length ds) (unat (txBufferSize s) - unat (txBufferIndex s)), s')
     \<and> txBufferSize s' = txBufferSize s
     \<and> length (txBuffer s') = length (txBuffer s)
     \<and> unat (txBufferIndex s') =
         unat (txBufferIndex s) +
           min (length ds) (unat (txBufferSize s) - unat (txBufferIndex s))
     \<and> take (unat (txBufferIndex s')) (txBuffer s') =
         take (unat (txBufferIndex s)) (txBuffer s) @
           take (min (length ds) (unat (txBufferSize s) - unat (txBufferIndex s))) ds
     \<and> write_error s' =
         (if unat (txBufferSize s) - unat (txBufferIndex s) < length ds then 1
          else write_error s)"
  using assms
proof (induction ds arbitrary: r s)
  case Nil
  then show ?case by simp
next
  case (Cons d ds)
  show ?case
  proof (cases "txBufferIndex s < txBufferSize s")
    case True
    define s1 where "s1 = s\<lparr>txBuffer := (txBuffer s)[unat (txBufferIndex s) := d],
                      txBufferIndex := txBufferIndex s + 1\<rparr>"
    have w: "write_byte d s = Inr (1, s1)"
      unfolding s1_def using Cons.prems True by (rule write_byte_room)
    have ui: "unat (txBufferIndex s1) = Suc (unat (txBufferIndex s))"
      using True by (simp add: s1_def unat_succ_cursor)
    have lt: "unat (txBufferIndex s) < unat (txBufferSize s)"
      using True by (simp add: word_less_nat_alt)
    have ok1: "unat (txBufferSize s1) \<le> length (txBuffer s1)"
      using Cons.prems by (simp add: s1_def)
    from Cons.IH [OF ok1, of "r + 1"] obtain s' where
      ih: "write_loop ds (r + 1) s1 =
             Inr (r + 1 + min (length ds) (unat (txBufferSize s1) - unat (txBufferIndex s1)), s')"
        "txBufferSize s' = txBufferSize s1"
        "length (txBuffer s') = length (txBuffer s1)"
        "unat (txBufferIndex s') =
           unat (txBufferIndex s1) +
             min (length ds) (unat (txBufferSize s1) - unat (txBufferIndex s1))"
        "take (unat (txBufferIndex s')) (txBuffer s') =
           take (unat (txBufferIndex s1)) (txBuffer s1) @
             take (min (length ds) (unat (txBufferSize s1) - unat (txBufferIndex s1))) ds"
        "write_error s' =
           (if unat (txBufferSize s1) - unat (txBufferIndex s1) < length ds then 1
            else write_error s1)"
      by blast
    have sz: "txBufferSize s1 = txBufferSize s" "write_error s1 = write_error s"
      "length (txBuffer s1) = length (txBuffer s)"
      by (simp_all add: s1_def)
    have m: "min (length (d # ds)) (unat (txBufferSize s) - unat (txBufferIndex s))
          = Suc (min (length ds) (unat (txBufferSize s1) - unat (txBufferIndex s1)))"
      using lt by (auto simp: sz ui min_def)
    have tk: "take (unat (txBufferIndex s1)) (txBuffer s1) =
                take (unat (txBufferIndex s)) (txBuffer s) @ [d]"
      unfolding ui using lt Cons.prems by (simp add: s1_def take_Suc_conv_app_nth)
    have "write_loop (d # ds) r s = write_loop ds (r + 1) s1"
      by (simp add: w)
    then show ?thesis
      using ih sz m tk ui lt by (intro exI [of _ s']) auto
  next
    case False
    then have full: "txBufferSize s \<le> txBufferIndex s"
      by simp
    then have w: "write_byte d s = Inr (0, s\<lparr>write_error := 1\<rparr>)"
      by (rule write_byte_full)
    have ok1: "unat (txBufferSize (s\<lparr>write_error := 1\<rparr>))
                 \<le> length (txBuffer (s\<lparr>write_error := 1\<rparr>))"
      using Cons.prems by simp
    have z: "unat (txBufferSize s) - unat (txBufferIndex s) = 0"
      using full by (simp add: word_le_nat_alt)
    from Cons.IH [OF ok1, of r] z w show ?thesis by auto
  qed
qed

text \<open>
  Claim C8. On an object whose transmit memory is as large as declared: while capacity
  remains, a single-byte write puts the byte at the cursor, advances the cursor and
  returns 1; on a full buffer it returns 0, sets the write-error flag and changes nothing
  else. The multi-byte write returns the number of bytes appended, which is the smaller
  of the number offered and the room left; the bytes buffered before it are unchanged and
  the appended ones follow them; the flag is set when bytes were refused and is otherwise
  what it was, so once set it stays set.
\<close>

theorem write_appends_until_full:
  assumes "buffers_ok s"
  shows "(txBufferIndex s < txBufferSize s \<longrightarrow>
            write_byte d s =
              Inr (1, s\<lparr>txBuffer := (txBuffer s)[unat (txBufferIndex s) := d],
                         txBufferIndex := txBufferIndex s + 1\<rparr>) \<and>
            take (unat (txBufferIndex s)) ((txBuffer s)[unat (txBufferIndex s) := d]) =
              take (unat (txBufferIndex s)) (txBuffer s)) \<and>
         (txBufferSize s \<le> txBufferIndex s \<longrightarrow>
            write_byte d s = Inr (0, s\<lparr>write_error := 1\<rparr>)) \<and>
         (\<exists>s'. write_bytes ds s =
                 Inr (min (length ds) (unat (txBufferSize s) - unat (txBufferIndex s)), s') \<and>
               unat (txBufferIndex s') =
                 unat (txBufferIndex s) +
                   min (length ds) (unat (txBufferSize s) - unat (txBufferIndex s)) \<and>
               take (unat (txBufferIndex s')) (txBuffer s') =
                 take (unat (txBufferIndex s)) (txBuffer s) @
                   take (min (length ds) (unat (txBufferSize s) - unat (txBufferIndex s))) ds \<and>
               write_error s' =
                 (if unat (txBufferSize s) - unat (txBufferIndex s) < length ds then 1
                  else write_error s))"
proof -
  from assms have mem: "unat (txBufferSize s) \<le> length (txBuffer s)"
    by (simp add: buffers_ok_def)
  have one: "write_byte d s =
              Inr (1, s\<lparr>txBuffer := (txBuffer s)[unat (txBufferIndex s) := d],
                         txBufferIndex := txBufferIndex s + 1\<rparr>)"
    if "txBufferIndex s < txBufferSize s"
    using mem that by (rule write_byte_room)
  have kept: "take (unat (txBufferIndex s)) ((txBuffer s)[unat (txBufferIndex s) := d]) =
              take (unat (txBufferIndex s)) (txBuffer s)"
    by simp
  have none: "write_byte d s = Inr (0, s\<lparr>write_error := 1\<rparr>)"
    if "txBufferSize s \<le> txBufferIndex s"
    using that by (rule write_byte_full)
  from write_loop_result [OF mem, of ds 0]
  have many: "\<exists>s'. write_bytes ds s =
                 Inr (min (length ds) (unat (txBufferSize s) - unat (txBufferIndex s)), s') \<and>
               unat (txBufferIndex s') =
                 unat (txBufferIndex s) +
                   min (length ds) (unat (txBufferSize s) - unat (txBufferIndex s)) \<and>
               take (unat (txBufferIndex s')) (txBuffer s') =
                 take (unat (txBufferIndex s)) (txBuffer s) @
                   take (min (length ds) (unat (txBufferSize s) - unat (txBufferIndex s))) ds \<and>
               write_error s' =
                 (if unat (txBufferSize s) - unat (txBufferIndex s) < length ds then 1
                  else write_error s)"
    unfolding write_bytes_def by auto
  from one kept none many show ?thesis by blast
qed

theorem write_appends_until_full_witness:
  "buffers_ok device \<and>
   write_byte 7 device = Inr (1, device\<lparr>txBuffer := [7, 0], txBufferIndex := 1\<rparr>) \<and>
   write_byte 7 (device\<lparr>txBufferIndex := 2\<rparr>) =
     Inr (0, device\<lparr>txBufferIndex := 2, write_error := 1\<rparr>) \<and>
   (\<exists>s'. write_bytes [7, 8, 9] device = Inr (2, s') \<and>
         txBufferIndex s' = 2 \<and> take 2 (txBuffer s') = [7, 8] \<and> write_error s' = 1)"
proof -
  have ok: "buffers_ok device"
    by (simp add: buffers_ok_def device_def)
  have ok2: "buffers_ok (device\<lparr>txBufferIndex := 2\<rparr>)"
    by (simp add: buffers_ok_def device_def)
  from write_appends_until_full [OF ok, of 7 "[7, 8, 9]"]
  have "write_byte 7 device = Inr (1, device\<lparr>txBuffer := [7, 0], txBufferIndex := 1\<rparr>)"
    by (simp add: device_def)
  moreover from write_appends_until_full [OF ok2, of 7 "[]"]
  have "write_byte 7 (device\<lparr>txBufferIndex := 2\<rparr>) =
          Inr (0, device\<lparr>txBufferIndex := 2, write_error := 1\<rparr>)"
    by (simp add: device_def)
  moreover have "\<exists>s'. write_bytes [7, 8, 9] device = Inr (2, s') \<and>
         txBufferIndex s' = 2 \<and> take 2 (txBuffer s') = [7, 8] \<and> write_error s' = 1"
  proof -
    have m: "min (length [7 :: u8, 8, 9])
               (unat (txBufferSize device) - unat (txBufferIndex device)) = 2"
      by (simp add: device_def)
    have i0: "unat (txBufferIndex device) = 0"
      by (simp add: device_def)
    have short: "unat (txBufferSize device) - unat (txBufferIndex device)
                   < length [7 :: u8, 8, 9]"
      by (simp add: device_def)
    from write_appends_until_full [OF ok, of 7 "[7, 8, 9]"] obtain s' where
      run: "write_bytes [7, 8, 9] device =
              Inr (min (length [7 :: u8, 8, 9])
                     (unat (txBufferSize device) - unat (txBufferIndex device)), s')" and
      cur: "unat (txBufferIndex s') =
              unat (txBufferIndex device) +
                min (length [7 :: u8, 8, 9])
                  (unat (txBufferSize device) - unat (txBufferIndex device))" and
      buf: "take (unat (txBufferIndex s')) (txBuffer s') =
              take (unat (txBufferIndex device)) (txBuffer device) @
                take (min (length [7 :: u8, 8, 9])
                        (unat (txBufferSize device) - unat (txBufferIndex device)))
                  [7, 8, 9]" and
      err: "write_error s' =
              (if unat (txBufferSize device) - unat (txBufferIndex device)
                    < length [7 :: u8, 8, 9]
               then 1 else write_error device)"
      by blast
    from run have run': "write_bytes [7, 8, 9] device = Inr (2, s')"
      by (simp only: m)
    from cur have cur': "unat (txBufferIndex s') = 2"
      by (simp only: m) (simp add: i0)
    then have "unat (txBufferIndex s') = unat (2 :: u8)"
      by simp
    then have "txBufferIndex s' = 2"
      by (simp only: word_unat_eq_iff)
    moreover from buf have "take 2 (txBuffer s') = [7, 8]"
      by (simp only: m cur') (simp add: i0 numeral_2_eq_2)
    moreover from err short have "write_error s' = 1"
      by (simp only: if_True)
    ultimately show ?thesis using run' by blast
  qed
  ultimately show ?thesis using ok by blast
qed

subsection \<open>Reading from the receive buffer\<close>

lemma read_exhausted:
  "\<not> rxBufferIndex s < rxBufferBytesRead s \<Longrightarrow> read s = Inr (- 1, s)"
  by (simp add: read_def)

lemma read_unread:
  assumes "rxBufferIndex s < rxBufferBytesRead s"
    and "unat (rxBufferIndex s + 1) < length (rxBuffer s)"
  shows "read s = Inr (uint (rxBuffer s ! unat (rxBufferIndex s + 1)),
                       s\<lparr>rxBufferIndex := rxBufferIndex s + 1\<rparr>)"
  using assms by (simp add: read_def Let_def)

text \<open>
  Claim C2 says that \<^verbatim>\<open>read\<close> with an unread byte returns the byte at the read cursor and
  then advances the cursor. The code advances first: with the bytes \<open>0xA5\<close>, \<open>0x3C\<close>
  received and the cursor at 0, the first \<^verbatim>\<open>read\<close> returns \<open>0x3C\<close>, and the second, with one
  byte still unread, indexes the two-byte buffer at 2.
\<close>

theorem read_returns_byte_after_cursor:
  "read (device\<lparr>rxBuffer := [0xA5, 0x3C], rxBufferBytesRead := 2\<rparr>) =
     Inr (0x3C, device\<lparr>rxBuffer := [0xA5, 0x3C], rxBufferBytesRead := 2,
                       rxBufferIndex := 1\<rparr>) \<and>
   read (device\<lparr>rxBuffer := [0xA5, 0x3C], rxBufferBytesRead := 2, rxBufferIndex := 1\<rparr>) =
     Inl OutOfBounds"
  by (simp add: read_def device_def)

subsection \<open>Stop on every timeout\<close>

lemma wire_log_emit [simp]: "wire_log (emit e w) = e # wire_log w"
  by (simp add: emit_def)

lemma wire_log_readScl: "readScl w = (level, w1) \<Longrightarrow> wire_log w1 = wire_log w"
  by (auto simp: readScl_def split: list.splits)

lemma wire_log_isExpired: "isExpired w = (expired, w1) \<Longrightarrow> wire_log w1 = wire_log w"
  by (auto simp: isExpired_def split: list.splits)

text \<open>A wait that sees the clock high has done nothing to the lines.\<close>

lemma awaitSclHigh_quiet:
  "fst (awaitSclHigh s w) \<Longrightarrow> wire_log (snd (awaitSclHigh s w)) = wire_log w"
proof (induction s w rule: stop_setSclHighAndStretch_awaitSclHigh.induct(3)
    [where P = "\<lambda>_ _. True" and Q = "\<lambda>_ _. True"])
  case (1 s w)
  show ?case ..
next
  case (2 s w)
  show ?case ..
next
  case (3 s w)
  obtain level w1 where scl: "readScl w = (level, w1)"
    by (cases "readScl w")
  obtain expired w2 where dl: "isExpired w1 = (expired, w2)"
    by (cases "isExpired w1")
  from scl dl have logs: "wire_log w1 = wire_log w" "wire_log w2 = wire_log w"
    by (simp_all add: wire_log_readScl [OF scl] wire_log_isExpired [OF dl])
  show ?case
  proof (cases "level \<or> expired")
    case True
    with scl dl logs "3.prems" show ?thesis
      by (auto simp: awaitSclHigh.simps [of s w])
  next
    case False
    with scl dl have eq: "awaitSclHigh s w = awaitSclHigh s w2"
      by (simp add: awaitSclHigh.simps [of s w])
    from False have "\<not> level" "\<not> expired"
      by simp_all
    from "3.IH" [OF scl [symmetric] refl \<open>\<not> level\<close> dl [symmetric] refl \<open>\<not> expired\<close>]
      "3.prems" eq logs
    show ?thesis by simp
  qed
qed

lemma setSclHighAndStretch_quiet:
  "fst (setSclHighAndStretch s w) \<Longrightarrow>
     wire_log (snd (setSclHighAndStretch s w)) = SclHigh # wire_log w"
  using awaitSclHigh_quiet [of s "setSclHigh w"]
  by (simp add: setSclHighAndStretch.simps setSclHigh_def)

text \<open>
  Every \<^verbatim>\<open>stop\<close>, and every clock release or wait that fails, ends with a completed stop
  sequence: a stop whose own wait fails has, inside that wait, run a stop that succeeded.
\<close>

lemma stop_issues_stop:
  "stop_issued s (snd (stop s w))"
  "\<not> fst (setSclHighAndStretch s w) \<Longrightarrow> stop_issued s (snd (setSclHighAndStretch s w))"
  "\<not> fst (awaitSclHigh s w) \<Longrightarrow> stop_issued s (snd (awaitSclHigh s w))"
proof (induction s w and s w and s w rule: stop_setSclHighAndStretch_awaitSclHigh.induct)
  case (1 s w)
  define w2 where "w2 = delayMicroseconds s (setSdaLow (delayMicroseconds s (setSclLow w)))"
  obtain ok w3 where h: "setSclHighAndStretch s w2 = (ok, w3)"
    by (cases "setSclHighAndStretch s w2")
  show ?case
  proof (cases ok)
    case True
    with h setSclHighAndStretch_quiet [of s w2]
    have "wire_log w3 = SclHigh # wire_log w2"
      by simp
    with True h show ?thesis
      by (simp add: stop.simps [of s w] w2_def [symmetric] stop_issued_def stop_sequence_def)
         (simp add: w2_def delayMicroseconds_def setSdaHigh_def setSdaLow_def setSclLow_def)
  next
    case False
    with h "1.IH" [OF refl refl] show ?thesis
      by (simp add: stop.simps [of s w] w2_def [symmetric])
  qed
next
  case (2 s w)
  then show ?case
    by (simp add: setSclHighAndStretch.simps)
next
  case (3 s w)
  obtain level w1 where scl: "readScl w = (level, w1)"
    by (cases "readScl w")
  obtain expired w2 where dl: "isExpired w1 = (expired, w2)"
    by (cases "isExpired w1")
  from "3.prems" scl have low: "\<not> level"
    by (auto simp: awaitSclHigh.simps [of s w])
  show ?case
  proof (cases expired)
    case True
    from "3.IH"(1) [OF scl [symmetric] refl low dl [symmetric] refl True]
    show ?thesis
      using scl dl low True by (simp add: awaitSclHigh.simps [of s w])
  next
    case False
    with scl dl low have eq: "awaitSclHigh s w = awaitSclHigh s w2"
      by (simp add: awaitSclHigh.simps [of s w])
    from "3.IH"(2) [OF scl [symmetric] refl low dl [symmetric] refl False] "3.prems" eq
    show ?thesis by simp
  qed
qed

lemma stop_issued_idle:
  assumes "stop_issued s w"
  shows "bus_idle w"
proof -
  from assms have "take 8 (wire_log w) = stop_sequence s"
    by (simp add: stop_issued_def)
  then have "wire_log w = stop_sequence s @ drop 8 (wire_log w)"
    by (metis append_take_drop_id)
  then obtain rest where "wire_log w = stop_sequence s @ rest" ..
  then show ?thesis
    by (simp add: bus_idle_def stop_sequence_def)
qed

lemma setSclHighAndStretch_failed:
  "setSclHighAndStretch s w = (False, w') \<Longrightarrow> stop_issued s w'"
  using stop_issues_stop(2) [of s w] by simp

lemma awaitSclHigh_failed:
  "awaitSclHigh s w = (False, w') \<Longrightarrow> stop_issued s w'"
  using stop_issues_stop(3) [of s w] by simp

lemma llWrite_loop_failed:
  "llWrite_loop i data s w = (False, w') \<Longrightarrow> stop_issued s w'"
proof (induction i arbitrary: data w)
  case 0
  then show ?case by simp
next
  case (Suc i)
  then show ?case
    by (auto simp: Let_def stop_issues_stop(1) split: prod.splits if_splits
        dest: setSclHighAndStretch_failed)
qed

lemma llWrite_timedOut:
  "llWrite data s w = (timedOut, w') \<Longrightarrow> stop_issued s w'"
  by (auto simp: llWrite_def Let_def split: prod.splits if_splits
      dest: setSclHighAndStretch_failed llWrite_loop_failed)

lemma llRead_loop_failed:
  "llRead_loop i data s w = (False, data', w') \<Longrightarrow> stop_issued s w'"
proof (induction i arbitrary: data w)
  case 0
  then show ?case by simp
next
  case (Suc i)
  then show ?case
    by (auto simp: Let_def split: prod.splits if_splits
        dest: setSclHighAndStretch_failed awaitSclHigh_failed)
qed

lemma llRead_timedOut:
  "llRead sendAck s w = (timedOut, data, w') \<Longrightarrow> stop_issued s w'"
  by (auto simp: llRead_def Let_def split: prod.splits if_splits
      dest: setSclHighAndStretch_failed awaitSclHigh_failed llRead_loop_failed)

text \<open>
  Claim C4. Whenever \<^verbatim>\<open>llWrite\<close> or \<^verbatim>\<open>llRead\<close> returns timed-out, whichever return it took,
  the last thing it did to the bus is a completed stop sequence, and the master has
  released both lines: the bus is idle.
\<close>

theorem timed_out_byte_has_issued_stop:
  "(fst (llWrite data s w) = timedOut \<longrightarrow>
      stop_issued s (snd (llWrite data s w)) \<and> bus_idle (snd (llWrite data s w))) \<and>
   (fst (llRead sendAck s w) = timedOut \<longrightarrow>
      stop_issued s (snd (snd (llRead sendAck s w))) \<and>
      bus_idle (snd (snd (llRead sendAck s w))))"
proof -
  have "stop_issued s (snd (llWrite data s w))" if "fst (llWrite data s w) = timedOut"
    using that llWrite_timedOut [of data s w "snd (llWrite data s w)"]
    by (cases "llWrite data s w") simp
  moreover
  have "stop_issued s (snd (snd (llRead sendAck s w)))"
    if "fst (llRead sendAck s w) = timedOut"
    using that llRead_timedOut [of sendAck s w _ "snd (snd (llRead sendAck s w))"]
    by (cases "llRead sendAck s w") simp
  ultimately show ?thesis
    by (blast intro: stop_issued_idle)
qed

theorem timed_out_byte_has_issued_stop_witness:
  "fst (llWrite 0xA0 device stretched_bus) = timedOut \<and>
   stop_issued device (snd (llWrite 0xA0 device stretched_bus)) \<and>
   bus_idle (snd (llWrite 0xA0 device stretched_bus)) \<and>
   fst (llWrite 0xA0 device late_bus) = timedOut \<and>
   stop_issued device (snd (llWrite 0xA0 device late_bus)) \<and>
   bus_idle (snd (llWrite 0xA0 device late_bus)) \<and>
   fst (llRead True device stretched_bus) = timedOut \<and>
   stop_issued device (snd (snd (llRead True device stretched_bus))) \<and>
   bus_idle (snd (snd (llRead True device stretched_bus))) \<and>
   fst (llRead True device dipping_bus) = timedOut \<and>
   stop_issued device (snd (snd (llRead True device dipping_bus))) \<and>
   bus_idle (snd (snd (llRead True device dipping_bus)))"
proof -
  have a: "fst (llWrite 0xA0 device stretched_bus) = timedOut"
    by code_simp
  have b: "fst (llWrite 0xA0 device late_bus) = timedOut"
    by code_simp
  have c: "fst (llRead True device stretched_bus) = timedOut"
    by code_simp
  have d: "fst (llRead True device dipping_bus) = timedOut"
    by code_simp
  from a b c d
    timed_out_byte_has_issued_stop [of "0xA0" device stretched_bus True]
    timed_out_byte_has_issued_stop [of "0xA0" device late_bus True]
    timed_out_byte_has_issued_stop [of "0xA0" device dipping_bus True]
  show ?thesis by blast
qed

subsection \<open>Start with retry\<close>

lemma llStartWait_never_retries:
  assumes "isExpired w = (False, w1)"
    and "llWrite rawAddr s (delayMicroseconds s (setSdaLow w1)) = (nack, w3)"
  shows "llStartWait rawAddr s w = (timedOut, snd (stop s (snd (stop s w3))))"
  using assms by (simp add: llStartWait_def Let_def)

text \<open>
  Claim C3 says that a not-acknowledged attempt of \<^verbatim>\<open>llStartWait\<close>, its deadline not yet
  expired, is followed by a stop and another start attempt, and that timed-out is
  returned only once the deadline has elapsed. On the bus without a slave the deadline
  never expires and the address byte is not acknowledged; the code issues two stops and
  returns timed-out, with no second attempt.
\<close>

theorem llStartWait_gives_up_on_nack:
  "fst (isExpired empty_bus) = False \<and>
   fst (llWrite 0xA0 device (delayMicroseconds device (setSdaLow empty_bus))) = nack \<and>
   llStartWait 0xA0 device empty_bus =
     (timedOut,
      snd (stop device (snd (stop device
        (snd (llWrite 0xA0 device (delayMicroseconds device (setSdaLow empty_bus))))))))"
  by code_simp

subsection \<open>The status of a transmission\<close>

lemma tx_outcomes_one_failure:
  "nack \<in> set (tx_outcomes bs s w) \<Longrightarrow> timedOut \<notin> set (tx_outcomes bs s w)"
proof (induction bs arbitrary: w)
  case Nil
  then show ?case by simp
next
  case (Cons b bs)
  obtain r w1 where h: "llWrite b s w = (r, w1)"
    by (cases "llWrite b s w")
  show ?case
    using Cons.prems Cons.IH [of w1] h by (cases r) auto
qed

lemma tx_outcomes_all_ack:
  "(tx_outcomes bs s w = replicate (length bs) ack) =
     (nack \<notin> set (tx_outcomes bs s w) \<and> timedOut \<notin> set (tx_outcomes bs s w))"
proof (induction bs arbitrary: w)
  case Nil
  show ?case by simp
next
  case (Cons b bs)
  obtain r w1 where h: "llWrite b s w = (r, w1)"
    by (cases "llWrite b s w")
  show ?case
    using Cons [of w1] h by (cases r) auto
qed

lemma endTransmission_loop_status:
  assumes "unat (txBufferIndex s) \<le> length (txBuffer s)"
  shows "\<exists>w'. endTransmission_loop i s w =
           Inr (if nack \<in> set (tx_outcomes
                       (drop (unat i) (take (unat (txBufferIndex s)) (txBuffer s))) s w)
                then Some 3
                else if timedOut \<in> set (tx_outcomes
                       (drop (unat i) (take (unat (txBufferIndex s)) (txBuffer s))) s w)
                then Some 4
                else None, w')"
  using assms
proof (induction i s w rule: endTransmission_loop.induct)
  case (1 i s w)
  let ?n = "unat (txBufferIndex s)"
  show ?case
  proof (cases "i < txBufferIndex s")
    case False
    then have "?n \<le> unat i"
      by (simp add: word_less_nat_alt)
    with False show ?thesis
      by (simp add: endTransmission_loop.simps [of i s w])
  next
    case True
    then have lt: "unat i < ?n"
      by (simp add: word_less_nat_alt)
    with "1.prems" have inb: "unat i < length (txBuffer s)"
      by simp
    have nxt: "unat (i + 1) = Suc (unat i)"
      using True by (rule unat_succ_cursor)
    have dr: "drop (unat i) (take ?n (txBuffer s)) =
              txBuffer s ! unat i # drop (unat (i + 1)) (take ?n (txBuffer s))"
    proof -
      have "unat i < length (take ?n (txBuffer s))"
        using lt inb by simp
      from Cons_nth_drop_Suc [OF this] nth_take [OF lt, of "txBuffer s"] show ?thesis
        by (simp add: nxt)
    qed
    obtain r w1 where h: "llWrite (txBuffer s ! unat i) s w = (r, w1)"
      by (cases "llWrite (txBuffer s ! unat i) s w")
    show ?thesis
    proof (cases r)
      case ack
      from "1.IH" [OF True inb h [symmetric] refl _ _ "1.prems"] ack
      obtain w' where "endTransmission_loop (i + 1) s w1 =
           Inr (if nack \<in> set (tx_outcomes
                       (drop (unat (i + 1)) (take ?n (txBuffer s))) s w1)
                then Some 3
                else if timedOut \<in> set (tx_outcomes
                       (drop (unat (i + 1)) (take ?n (txBuffer s))) s w1)
                then Some 4
                else None, w')"
        by auto
      with True inb h ack show ?thesis
        by (simp add: endTransmission_loop.simps [of i s w] dr)
    next
      case nack
      with True inb h show ?thesis
        by (simp add: endTransmission_loop.simps [of i s w] dr)
    next
      case timedOut
      with True inb h show ?thesis
        by (simp add: endTransmission_loop.simps [of i s w] dr)
    qed
  qed
qed

text \<open>
  Claim C6. On an object whose transmit memory is as large as declared and whose write
  cursor is within the declared size, \<^verbatim>\<open>endTransmission\<close> returns a status, and the status
  is 0 exactly when the address byte and every buffered byte are acknowledged, 2 exactly
  when the address byte is not acknowledged, 3 exactly when the address byte is
  acknowledged and a data byte is not, and 4 exactly when the address byte or, after an
  acknowledged address, a data byte times out; the data bytes are shifted out in order
  until the first that is not acknowledged.
\<close>

theorem endTransmission_status_codes:
  assumes "buffers_ok s" and "txBufferIndex s \<le> txBufferSize s"
  shows "\<exists>status w'. endTransmission sendStop s w = Inr (status, w') \<and>
     (status = 0 \<longleftrightarrow>
        fst (start (txAddress s) writeMode s w) = ack \<and>
        tx_outcomes (take (unat (txBufferIndex s)) (txBuffer s)) s
            (snd (start (txAddress s) writeMode s w)) =
          replicate (unat (txBufferIndex s)) ack) \<and>
     (status = 2 \<longleftrightarrow> fst (start (txAddress s) writeMode s w) = nack) \<and>
     (status = 3 \<longleftrightarrow>
        fst (start (txAddress s) writeMode s w) = ack \<and>
        nack \<in> set (tx_outcomes (take (unat (txBufferIndex s)) (txBuffer s)) s
                      (snd (start (txAddress s) writeMode s w)))) \<and>
     (status = 4 \<longleftrightarrow>
        fst (start (txAddress s) writeMode s w) = timedOut \<or>
        fst (start (txAddress s) writeMode s w) = ack \<and>
        timedOut \<in> set (tx_outcomes (take (unat (txBufferIndex s)) (txBuffer s)) s
                          (snd (start (txAddress s) writeMode s w))))"
proof -
  let ?bytes = "take (unat (txBufferIndex s)) (txBuffer s)"
  obtain a w1 where st: "start (txAddress s) writeMode s w = (a, w1)"
    by (cases "start (txAddress s) writeMode s w")
  let ?outs = "tx_outcomes ?bytes s w1"
  from assms have mem: "unat (txBufferIndex s) \<le> length (txBuffer s)"
    by (simp add: buffers_ok_def word_le_nat_alt)
  then have len: "length ?bytes = unat (txBufferIndex s)"
    by simp
  have allack: "(?outs = replicate (unat (txBufferIndex s)) ack) =
                  (nack \<notin> set ?outs \<and> timedOut \<notin> set ?outs)"
    using tx_outcomes_all_ack [of ?bytes s w1] by (simp only: len)
  have excl: "nack \<in> set ?outs \<Longrightarrow> timedOut \<notin> set ?outs"
    by (rule tx_outcomes_one_failure)
  from endTransmission_loop_status [OF mem, of 0 w1] obtain w2 where
    lp: "endTransmission_loop 0 s w1 =
           Inr (if nack \<in> set ?outs then Some 3
                else if timedOut \<in> set ?outs then Some 4 else None, w2)"
    by auto
  show ?thesis
  proof (cases a)
    case ack
    with st lp allack excl show ?thesis
      by (auto simp: endTransmission_def)
  next
    case nack
    with st show ?thesis
      by (simp add: endTransmission_def)
  next
    case timedOut
    with st show ?thesis
      by (simp add: endTransmission_def)
  qed
qed

theorem endTransmission_status_codes_witness:
  "buffers_ok loaded_device \<and> txBufferIndex loaded_device \<le> txBufferSize loaded_device \<and>
   (\<exists>w'. endTransmission 1 loaded_device acking_slave = Inr (0, w')) \<and>
   (\<exists>w'. endTransmission 1 loaded_device empty_bus = Inr (2, w')) \<and>
   (\<exists>w'. endTransmission 1 loaded_device refusing_slave = Inr (3, w')) \<and>
   (\<exists>w'. endTransmission 1 loaded_device late_bus = Inr (4, w'))"
proof -
  have ok: "buffers_ok loaded_device"
    by (simp add: buffers_ok_def loaded_device_def device_def)
  have cur: "txBufferIndex loaded_device \<le> txBufferSize loaded_device"
    by (simp add: loaded_device_def device_def)
  have all_acked:
    "fst (start (txAddress loaded_device) writeMode loaded_device acking_slave) = ack \<and>
     tx_outcomes (take (unat (txBufferIndex loaded_device)) (txBuffer loaded_device))
         loaded_device
         (snd (start (txAddress loaded_device) writeMode loaded_device acking_slave)) =
       replicate (unat (txBufferIndex loaded_device)) ack"
    by code_simp
  have no_slave:
    "fst (start (txAddress loaded_device) writeMode loaded_device empty_bus) = nack"
    by code_simp
  have refused:
    "fst (start (txAddress loaded_device) writeMode loaded_device refusing_slave) = ack \<and>
     nack \<in> set (tx_outcomes
         (take (unat (txBufferIndex loaded_device)) (txBuffer loaded_device)) loaded_device
         (snd (start (txAddress loaded_device) writeMode loaded_device refusing_slave)))"
    by code_simp
  have late:
    "fst (start (txAddress loaded_device) writeMode loaded_device late_bus) = timedOut"
    by code_simp
  from endTransmission_status_codes [OF ok cur, of 1 acking_slave] all_acked
  have "\<exists>w'. endTransmission 1 loaded_device acking_slave = Inr (0, w')"
    by auto
  moreover
  from endTransmission_status_codes [OF ok cur, of 1 empty_bus] no_slave
  have "\<exists>w'. endTransmission 1 loaded_device empty_bus = Inr (2, w')"
    by auto
  moreover
  from endTransmission_status_codes [OF ok cur, of 1 refusing_slave] refused
  have "\<exists>w'. endTransmission 1 loaded_device refusing_slave = Inr (3, w')"
    by auto
  moreover
  from endTransmission_status_codes [OF ok cur, of 1 late_bus] late
  have "\<exists>w'. endTransmission 1 loaded_device late_bus = Inr (4, w')"
    by auto
  ultimately show ?thesis
    using ok cur by blast
qed

subsection \<open>Requests\<close>

lemma requestFrom_loop_in_bounds:
  "unat quantity \<le> length (rxBuffer s) \<Longrightarrow>
     \<exists>s' w'. requestFrom_loop quantity i s w = Inr (s', w')"
proof (induction quantity i s w rule: requestFrom_loop.induct)
  case (1 quantity i s w)
  show ?case
  proof (cases "i < quantity")
    case False
    then show ?thesis
      by (simp add: requestFrom_loop.simps [of quantity i s w])
  next
    case True
    then have "unat i < unat quantity"
      by (simp add: word_less_nat_alt)
    with "1.prems" have inb: "unat i < length (rxBuffer s)"
      by simp
    obtain r data w1 where rd: "llRead (uint i \<noteq> uint quantity - 1) s w = (r, data, w1)"
      by (cases "llRead (uint i \<noteq> uint quantity - 1) s w")
    define s1 where "s1 = s\<lparr>rxBuffer := (rxBuffer s)[unat i := data]\<rparr>"
    show ?thesis
    proof (cases "result_code r \<noteq> 0")
      case True
      with \<open>i < quantity\<close> inb rd show ?thesis
        by (simp add: requestFrom_loop.simps [of quantity i s w])
    next
      case False
      have "unat quantity
              \<le> length (rxBuffer (s1\<lparr>rxBufferBytesRead := rxBufferBytesRead s1 + 1\<rparr>))"
        using "1.prems" by (simp add: s1_def)
      from "1.IH" [OF True inb rd [symmetric] refl refl s1_def False this]
      obtain s' w' where "requestFrom_loop quantity (i + 1)
          (s1\<lparr>rxBufferBytesRead := rxBufferBytesRead s1 + 1\<rparr>) w1 = Inr (s', w')"
        by blast
      moreover have "rxBufferBytesRead s1 = rxBufferBytesRead s"
        by (simp add: s1_def)
      ultimately show ?thesis
        using True inb rd False
        by (simp add: requestFrom_loop.simps [of quantity i s w] s1_def [symmetric])
    qed
  qed
qed

text \<open>
  Claim C10. \<^verbatim>\<open>requestFrom\<close> does not compare the quantity with the capacity of the
  receive buffer. When the receive memory is as large as declared and the quantity does
  not exceed the declared size, the call completes without an access out of bounds; and
  there is a quantity above the declared size, on an object whose memory is exactly as
  declared, for which the loop indexes the buffer out of bounds.
\<close>

theorem requestFrom_checks_no_capacity:
  "(buffers_ok s \<and> quantity \<le> rxBufferSize s \<longrightarrow>
      (\<exists>n s' w'. requestFrom address quantity sendStop s w = Inr (n, s', w'))) \<and>
   (\<exists>s0 w0 q. buffers_ok s0 \<and> unat (rxBufferSize s0) = length (rxBuffer s0) \<and>
      rxBufferSize s0 < q \<and> requestFrom 0x50 q 1 s0 w0 = Inl OutOfBounds)"
proof -
  have safe: "\<exists>n s' w'. requestFrom address quantity sendStop s w = Inr (n, s', w')"
    if ok: "buffers_ok s" and le: "quantity \<le> rxBufferSize s"
  proof -
    from ok le
    have bound: "unat quantity \<le> length (rxBuffer (s\<lparr>rxBufferBytesRead := 0\<rparr>))"
      by (simp add: buffers_ok_def word_le_nat_alt)
    obtain r w1 where
      st: "start address readMode (s\<lparr>rxBufferBytesRead := 0\<rparr>) w = (r, w1)"
      by (cases "start address readMode (s\<lparr>rxBufferBytesRead := 0\<rparr>) w")
    from requestFrom_loop_in_bounds [OF bound]
    obtain s' w' where
      "requestFrom_loop quantity 0 (s\<lparr>rxBufferBytesRead := 0\<rparr>) w1 = Inr (s', w')"
      by blast
    with st show ?thesis
      by (cases "result_code r = 0") (simp_all add: requestFrom_def Let_def)
  qed
  have "buffers_ok device \<and> unat (rxBufferSize device) = length (rxBuffer device) \<and>
          rxBufferSize device < 3 \<and>
          requestFrom 0x50 3 1 device two_byte_slave = Inl OutOfBounds"
    by code_simp
  then have "\<exists>s0 w0 q. buffers_ok s0 \<and> unat (rxBufferSize s0) = length (rxBuffer s0) \<and>
      rxBufferSize s0 < q \<and> requestFrom 0x50 q 1 s0 w0 = Inl OutOfBounds"
    by blast
  with safe show ?thesis by blast
qed

theorem requestFrom_checks_no_capacity_witness:
  "buffers_ok device \<and> 2 \<le> rxBufferSize device \<and>
   (\<exists>n s' w'. requestFrom 0x50 2 1 device two_byte_slave = Inr (n, s', w'))"
proof -
  have "buffers_ok device \<and> 2 \<le> rxBufferSize device"
    by (simp add: buffers_ok_def device_def)
  with requestFrom_checks_no_capacity [of device 2 "0x50" 1 two_byte_slave]
  show ?thesis by blast
qed

lemma requestFrom_loop_cursor:
  "requestFrom_loop quantity i s w = Inr (s', w') \<Longrightarrow> rxBufferIndex s' = rxBufferIndex s"
proof (induction quantity i s w rule: requestFrom_loop.induct)
  case (1 quantity i s w)
  obtain r data w1 where rd: "llRead (uint i \<noteq> uint quantity - 1) s w = (r, data, w1)"
    by (cases "llRead (uint i \<noteq> uint quantity - 1) s w")
  define s1 where "s1 = s\<lparr>rxBuffer := (rxBuffer s)[unat i := data]\<rparr>"
  show ?case
  proof (cases "i < quantity \<and> unat i < length (rxBuffer s) \<and> result_code r = 0")
    case True
    then have more: "i < quantity" "unat i < length (rxBuffer s)" "\<not> result_code r \<noteq> 0"
      by simp_all
    from "1.prems" more rd
    have "requestFrom_loop quantity (i + 1)
            (s1\<lparr>rxBufferBytesRead := rxBufferBytesRead s1 + 1\<rparr>) w1 = Inr (s', w')"
      by (simp add: requestFrom_loop.simps [of quantity i s w] s1_def)
    from "1.IH" [OF more(1,2) rd [symmetric] refl refl s1_def more(3) this]
    show ?thesis
      by (simp add: s1_def)
  next
    case False
    with "1.prems" rd show ?thesis
      by (auto simp: requestFrom_loop.simps [of quantity i s w] split: if_splits)
  qed
qed

text \<open>Whatever the bus does, a request that completes returns the untouched read cursor.\<close>

lemma requestFrom_result_is_cursor:
  assumes "requestFrom address quantity sendStop s w = Inr (n, s', w')"
  shows "n = rxBufferIndex s \<and> rxBufferIndex s' = rxBufferIndex s"
proof -
  obtain r w1 where st: "start address readMode (s\<lparr>rxBufferBytesRead := 0\<rparr>) w = (r, w1)"
    by (cases "start address readMode (s\<lparr>rxBufferBytesRead := 0\<rparr>) w")
  show ?thesis
  proof (cases "result_code r = 0")
    case True
    with assms st obtain s2 w2 where
      lp: "requestFrom_loop quantity 0 (s\<lparr>rxBufferBytesRead := 0\<rparr>) w1 = Inr (s2, w2)"
      and res: "n = rxBufferIndex s2" "s' = s2"
      by (auto simp: requestFrom_def Let_def split: sum.splits)
    from requestFrom_loop_cursor [OF lp] res show ?thesis
      by simp
  next
    case False
    with assms st show ?thesis
      by (auto simp: requestFrom_def Let_def)
  qed
qed

text \<open>
  Claim C1 says that \<^verbatim>\<open>requestFrom\<close> returns the number of bytes received and buffered
  during the call, and 0 when the address phase fails. The code returns the read cursor,
  which the call does not touch. A request for two bytes from a slave that supplies both
  buffers two bytes and returns 0; a request that no slave answers, made with the read
  cursor at 1, returns 1.
\<close>

theorem requestFrom_returns_read_cursor:
  "map_sum id (\<lambda>(n, s', w'). (n, rxBufferBytesRead s', rxBuffer s'))
     (requestFrom 0x50 2 1 device two_byte_slave) = Inr (0, 2, [0xA5, 0x3C]) \<and>
   map_sum id (\<lambda>(n, s', w'). (n, rxBufferBytesRead s'))
     (requestFrom 0x50 2 1 (device\<lparr>rxBufferIndex := 1, rxBufferBytesRead := 2\<rparr>) empty_bus) =
     Inr (1, 0)"
  by code_simp

text \<open>The other operations on the buffers keep the cursor invariant.\<close>

lemma write_byte_cursors:
  "cursors_ok s \<Longrightarrow> write_byte d s = Inr (n, s') \<Longrightarrow> cursors_ok s'"
  by (auto simp: write_byte_def cursors_ok_def setWriteError_def inc_le not_le
      split: if_splits)

lemma beginTransmission_cursors:
  "cursors_ok s \<Longrightarrow> cursors_ok (beginTransmission a s)"
  by (simp add: beginTransmission_def cursors_ok_def)

lemma read_cursors:
  "cursors_ok s \<Longrightarrow> read s = Inr (b, s') \<Longrightarrow> cursors_ok s'"
  by (auto simp: read_def cursors_ok_def Let_def inc_le split: if_splits)

text \<open>
  Claim C5 says that after every public operation the write cursor does not exceed the
  capacity of the transmit buffer and the read cursor does not exceed the count of bytes
  received in the last request. \<^verbatim>\<open>requestFrom\<close> resets the count and leaves the cursor
  where it was: after a request that received two bytes and one \<^verbatim>\<open>read\<close>, both within the
  invariant, a request that no slave answers leaves the cursor at 1 and the count at 0,
  and \<^verbatim>\<open>available\<close> is negative.
\<close>

theorem requestFrom_leaves_cursor_beyond_count:
  "cursors_ok device \<and>
   (case requestFrom 0x50 2 1 device two_byte_slave of
      Inl e \<Rightarrow> False
    | Inr (n1, s1, w1) \<Rightarrow>
        cursors_ok s1 \<and>
        (case read s1 of
           Inl e \<Rightarrow> False
         | Inr (b, s2) \<Rightarrow>
             cursors_ok s2 \<and>
             (case requestFrom 0x50 2 1 s2 empty_bus of
                Inl e \<Rightarrow> False
              | Inr (n3, s3, w3) \<Rightarrow>
                  rxBufferIndex s3 = 1 \<and> rxBufferBytesRead s3 = 0 \<and>
                  \<not> cursors_ok s3 \<and> available s3 = - 1)))"
  by code_simp

end
